theory Spec2Isabelle
  imports Main "HOL-Library.AList"
begin

section \<open>Data model of src/server.ts\<close>

text \<open>
  The server keeps one module-level object \<^verbatim>\<open>transports\<close>, a record from session id to a
  transport object of one of two classes. Objects created by \<^verbatim>\<open>new\<close> are identified by a
  reference (a natural number handed out by an allocation counter); the class of a
  transport never changes, so the reference carries it as a constructor.

  Everything the handlers call in the protocol library (the transports' request handling,
  \<^verbatim>\<open>connect\<close>, \<^verbatim>\<open>close\<close>, \<^verbatim>\<open>isInitializeRequest\<close>, \<^verbatim>\<open>randomUUID\<close>) is outside the
  repository. Each such call is recorded in the state, and what the library does during
  the call (which callbacks it fires, whether it starts the response, whether it throws)
  is an argument of the handler, so a theorem holds for every behaviour of the library
  unless it states an assumption on it.
  A handler runs from its first statement to its last without another handler in between.
\<close>

type_synonym ref = nat

datatype transport = StreamableHTTPServerTransport ref | SSEServerTransport ref

text \<open>
  The value of the expression \<^verbatim>\<open>transports[key]\<close>. An \<^verbatim>\<open>instanceof\<close> test on such a
  value is a match on its constructors.
\<close>

datatype js_value = Undefined | Transport transport | PrototypeMember string

text \<open>
  src/tools/types.ts, type CallTool. The parameter schema has the single string field
  \<^verbatim>\<open>name\<close>; the callback maps it to the texts of the returned content.
\<close>

record tool =
  tool_name :: string
  description :: string
  callback :: "string \<Rightarrow> string list"

definition fakeTool :: tool where
  "fakeTool = \<lparr>tool_name = ''fake'', description = ''Fake tool'',
     callback = (\<lambda>name. [''Hello '' @ name @ ''!''])\<rparr>"

text \<open>What the router itself writes to the response object.\<close>

datatype reply =
    JsonRpcError nat int string   \<comment> \<open>\<^verbatim>\<open>res.status(st).json({jsonrpc: "2.0", error: {code, message}, id: null})\<close>\<close>
  | PlainText nat string          \<comment> \<open>\<^verbatim>\<open>res.status(st).send(text)\<close>\<close>

record response =
  headersSent :: bool
  sent :: "reply list"

record 'b request =
  req_method :: string            \<comment> \<open>\<^verbatim>\<open>req.method\<close>\<close>
  mcp_session_id :: "string option"   \<comment> \<open>\<^verbatim>\<open>req.headers["mcp-session-id"]\<close>\<close>
  token :: "string option"            \<comment> \<open>\<^verbatim>\<open>req.query.token\<close>, when it is a string\<close>
  sessionId_param :: "string option"  \<comment> \<open>\<^verbatim>\<open>req.query.sessionId as string\<close>\<close>
  body :: 'b

datatype sdk_call =
    Connect ref transport           \<comment> \<open>\<^verbatim>\<open>server.connect(transport)\<close>\<close>
  | HandleRequest transport         \<comment> \<open>\<^verbatim>\<open>transport.handleRequest(req, res, req.body)\<close>\<close>
  | HandlePostMessage transport     \<comment> \<open>\<^verbatim>\<open>transport.handlePostMessage(req, res, req.body)\<close>\<close>
  | Close transport                 \<comment> \<open>\<^verbatim>\<open>transport.close()\<close>\<close>

datatype log_entry = Log string | Error string

record state =
  transports :: "(string \<times> transport) list"  \<comment> \<open>own properties, in insertion order\<close>
  sessionId_of :: "ref \<rightharpoonup> string"            \<comment> \<open>\<^verbatim>\<open>transport.sessionId\<close>\<close>
  eventStore_of :: "ref \<rightharpoonup> ref"              \<comment> \<open>the \<^verbatim>\<open>eventStore\<close> option given to the constructor\<close>
  servers :: "ref \<rightharpoonup> tool list"              \<comment> \<open>McpServer objects with the tools registered on them\<close>
  next_ref :: ref
  calls :: "sdk_call list"
  console :: "log_entry list"
  exit_code :: "int option"                  \<comment> \<open>\<^verbatim>\<open>process.exit(code)\<close>\<close>

definition init_state :: state where
  "init_state = \<lparr>transports = [], sessionId_of = Map.empty, eventStore_of = Map.empty,
     servers = Map.empty, next_ref = 0, calls = [], console = [], exit_code = None\<rparr>"

subsection \<open>JavaScript values\<close>

text \<open>
  \<^verbatim>\<open>transports\<close> is created by the literal \<^verbatim>\<open>{}\<close>, so a read of a key that is not an own
  property falls through to \<^verbatim>\<open>Object.prototype\<close>, whose members are functions (or, for
  \<^verbatim>\<open>__proto__\<close>, the prototype itself): truthy values that are instances of neither
  transport class. Keys are only ever assigned from \<^verbatim>\<open>randomUUID()\<close>, so an assignment
  creates or overwrites an own property.
\<close>

definition object_prototype_keys :: "string list" where
  "object_prototype_keys =
    [''constructor'', ''__defineGetter__'', ''__defineSetter__'', ''hasOwnProperty'',
     ''__lookupGetter__'', ''__lookupSetter__'', ''isPrototypeOf'', ''propertyIsEnumerable'',
     ''toString'', ''valueOf'', ''__proto__'', ''toLocaleString'']"

definition lookup :: "(string \<times> transport) list \<Rightarrow> string \<Rightarrow> js_value" where
  "lookup reg k =
    (case map_of reg k of
       Some t \<Rightarrow> Transport t
     | None \<Rightarrow> if k \<in> set object_prototype_keys then PrototypeMember k else Undefined)"

fun truthy :: "js_value \<Rightarrow> bool" where
  "truthy Undefined = False"
| "truthy (Transport t) = True"
| "truthy (PrototypeMember k) = True"

text \<open>Truthiness of a \<^verbatim>\<open>string | undefined\<close>: the empty string is falsy.\<close>

fun truthy_string :: "string option \<Rightarrow> bool" where
  "truthy_string None = False"
| "truthy_string (Some s) = (s \<noteq> [])"

text \<open>
  A \<^verbatim>\<open>string | undefined\<close> converted to a string: as a property key, in a template
  literal, or printed by \<^verbatim>\<open>console.log\<close>.
\<close>

fun js_string :: "string option \<Rightarrow> string" where
  "js_string None = ''undefined''"
| "js_string (Some s) = s"

fun ref_of :: "transport \<Rightarrow> ref" where
  "ref_of (StreamableHTTPServerTransport r) = r"
| "ref_of (SSEServerTransport r) = r"

subsection \<open>Registry, console, response and allocation primitives\<close>

definition registry_set :: "string \<Rightarrow> transport \<Rightarrow> state \<Rightarrow> state" where
  \<comment> \<open>\<^verbatim>\<open>transports[k] = t\<close>\<close>
  "registry_set k t s = s\<lparr>transports := AList.update k t (transports s)\<rparr>"

definition registry_delete :: "string \<Rightarrow> state \<Rightarrow> state" where
  \<comment> \<open>\<^verbatim>\<open>delete transports[k]\<close>\<close>
  "registry_delete k s = s\<lparr>transports := AList.delete k (transports s)\<rparr>"

definition console_log :: "string \<Rightarrow> state \<Rightarrow> state" where
  "console_log m s = s\<lparr>console := console s @ [Log m]\<rparr>"

definition console_error :: "string \<Rightarrow> state \<Rightarrow> state" where
  "console_error m s = s\<lparr>console := console s @ [Error m]\<rparr>"

definition record_call :: "sdk_call \<Rightarrow> state \<Rightarrow> state" where
  "record_call c s = s\<lparr>calls := calls s @ [c]\<rparr>"

definition fresh_response :: response where
  "fresh_response = \<lparr>headersSent = False, sent = []\<rparr>"

definition res_json :: "nat \<Rightarrow> int \<Rightarrow> string \<Rightarrow> response \<Rightarrow> response" where
  "res_json st code msg res = res\<lparr>headersSent := True, sent := sent res @ [JsonRpcError st code msg]\<rparr>"

definition res_send :: "nat \<Rightarrow> string \<Rightarrow> response \<Rightarrow> response" where
  "res_send st txt res = res\<lparr>headersSent := True, sent := sent res @ [PlainText st txt]\<rparr>"

definition new_ref :: "state \<Rightarrow> ref \<times> state" where
  "new_ref s = (next_ref s, s\<lparr>next_ref := Suc (next_ref s)\<rparr>)"

text \<open>
  Modelled from the spec: the class \<^verbatim>\<open>InMemoryEventStore\<close> (src/inMemoryEventStore.ts is
  not among the sources). The handler only constructs a store and passes it on (spec 4.3: the
  core constructs one store per newly initialized Streamable session and does not inspect
  its contents), so constructing one is the allocation of a new object.
\<close>

definition new_InMemoryEventStore :: "state \<Rightarrow> ref \<times> state" where
  "new_InMemoryEventStore s = new_ref s"

section \<open>getServer\<close>

text \<open>
  The list \<^verbatim>\<open>tools\<close> is imported from src/tools/index.ts, which is not among the sources
  (the file that declares \<^verbatim>\<open>fakeTool\<close> is); it is a parameter of the model.
\<close>

definition server_tool :: "ref \<Rightarrow> tool \<Rightarrow> state \<Rightarrow> state" where
  \<comment> \<open>\<^verbatim>\<open>server.tool(tool.name, tool.description, tool.paramsSchema, tool.callback)\<close>\<close>
  "server_tool srv tool s =
    s\<lparr>servers := (servers s)(srv \<mapsto> (case servers s srv of None \<Rightarrow> [tool] | Some ts \<Rightarrow> ts @ [tool]))\<rparr>"

definition getServer :: "tool list \<Rightarrow> state \<Rightarrow> ref \<times> state" where
  "getServer tools s =
    (let (server, s1) = new_ref s;
         s2 = s1\<lparr>servers := (servers s1)(server \<mapsto> [])\<rparr>
     in (server, foldl (\<lambda>acc tool. server_tool server tool acc) s2 tools))"

definition connect :: "bool \<Rightarrow> ref \<Rightarrow> transport \<Rightarrow> state \<Rightarrow> bool \<times> state" where
  \<comment> \<open>\<^verbatim>\<open>await server.connect(transport)\<close>; the flag says whether the library throws\<close>
  "connect throws server t s = (throws, record_call (Connect server t) s)"

section \<open>The callbacks registered by the handlers\<close>

definition onsessioninitialized :: "transport \<Rightarrow> string \<Rightarrow> state \<Rightarrow> state" where
  "onsessioninitialized t sessionId s =
    registry_set sessionId t
      (console_log (''StreamableHTTP session initialized with ID: '' @ sessionId) s)"

definition onclose :: "transport \<Rightarrow> state \<Rightarrow> state" where
  "onclose t s =
    (let sid = sessionId_of s (ref_of t) in
     if truthy_string sid \<and> truthy (lookup (transports s) (js_string sid)) then
       registry_delete (js_string sid)
         (console_log (''Transport closed for session '' @ js_string sid) s)
     else s)"

definition res_on_close :: "transport \<Rightarrow> state \<Rightarrow> state" where
  \<comment> \<open>the listener of /sse: \<^verbatim>\<open>delete transports[transport.sessionId]\<close>\<close>
  "res_on_close t s = registry_delete (js_string (sessionId_of s (ref_of t))) s"

fun cleanup :: "transport \<Rightarrow> state \<Rightarrow> state" where
  "cleanup (StreamableHTTPServerTransport r) s = onclose (StreamableHTTPServerTransport r) s"
| "cleanup (SSEServerTransport r) s = res_on_close (SSEServerTransport r) s"

section \<open>The newer-family endpoint: app.all("/mcp")\<close>

text \<open>
  What the library does inside one \<^verbatim>\<open>handleRequest\<close>: it may start the response, assign
  the session id (it stores the generated id in \<^verbatim>\<open>transport.sessionId\<close> and calls
  \<^verbatim>\<open>onsessioninitialized\<close> with it), close the transport (which calls \<^verbatim>\<open>onclose\<close>), in
  any order and number, and then return or throw.
\<close>

datatype effect = WriteHead | SessionInitialized string | Closed

record handle_outcome =
  effects :: "effect list"
  throws :: bool

record mcp_env =
  connect_throws :: bool
  handle :: handle_outcome

fun apply_effect :: "transport \<Rightarrow> response \<times> state \<Rightarrow> effect \<Rightarrow> response \<times> state" where
  "apply_effect t (res, s) WriteHead = (res\<lparr>headersSent := True\<rparr>, s)"
| "apply_effect t (res, s) (SessionInitialized sid) =
     (res, onsessioninitialized t sid (s\<lparr>sessionId_of := (sessionId_of s)(ref_of t \<mapsto> sid)\<rparr>))"
| "apply_effect t (res, s) Closed = (res, onclose t s)"

definition handleRequest :: "handle_outcome \<Rightarrow> transport \<Rightarrow> response \<Rightarrow> state \<Rightarrow> bool \<times> response \<times> state" where
  "handleRequest h t res s =
    (let (res', s') = foldl (apply_effect t) (res, record_call (HandleRequest t) s) (effects h)
     in (throws h, res', s'))"

definition new_StreamableHTTPServerTransport :: "ref \<Rightarrow> state \<Rightarrow> transport \<times> state" where
  "new_StreamableHTTPServerTransport eventStore s =
    (let (r, s1) = new_ref s
     in (StreamableHTTPServerTransport r, s1\<lparr>eventStore_of := (eventStore_of s1)(r \<mapsto> eventStore)\<rparr>))"

definition invalid_session_message :: string where
  "invalid_session_message = ''Bad Request: No valid session ID provided''"

definition wrong_transport_message :: string where
  "wrong_transport_message = ''Bad Request: Session exists but uses a different transport protocol''"

definition missing_token_message :: string where
  "missing_token_message = ''Bad Request: No token provided''"

definition internal_error_message :: string where
  "internal_error_message = ''Internal server error''"

text \<open>The body of the \<^verbatim>\<open>try\<close> block; the first component says whether it threw.\<close>

definition mcp_try ::
  "('b \<Rightarrow> bool) \<Rightarrow> tool list \<Rightarrow> mcp_env \<Rightarrow> 'b request \<Rightarrow> response \<Rightarrow> state \<Rightarrow> bool \<times> response \<times> state" where
  "mcp_try isInitializeRequest tools env req res s =
    (let sessionId = mcp_session_id req in
     if truthy_string sessionId \<and> truthy (lookup (transports s) (js_string sessionId)) then
       (let existingTransport = lookup (transports s) (js_string sessionId) in
        case existingTransport of
          Transport (StreamableHTTPServerTransport r) \<Rightarrow>
            handleRequest (handle env) (StreamableHTTPServerTransport r) res s
        | _ \<Rightarrow> (False, res_json 400 (- 32000) wrong_transport_message res, s))
     else if \<not> truthy_string sessionId \<and> req_method req = ''POST'' \<and> isInitializeRequest (body req) then
       (if \<not> truthy_string (token req) then
          (False, res_json 400 (- 32000) missing_token_message res, s)
        else
          (let s1 = console_log (''Initializing new session with token: '' @ js_string (token req)) s;
               (eventStore, s2) = new_InMemoryEventStore s1;
               (transport, s3) = new_StreamableHTTPServerTransport eventStore s2;
               (server, s4) = getServer tools s3;
               (thrown, s5) = connect (connect_throws env) server transport s4
           in if thrown then (True, res, s5)
              else handleRequest (handle env) transport res s5))
     else (False, res_json 400 (- 32000) invalid_session_message res, s))"

definition mcp_handler ::
  "('b \<Rightarrow> bool) \<Rightarrow> tool list \<Rightarrow> mcp_env \<Rightarrow> 'b request \<Rightarrow> state \<Rightarrow> response \<times> state" where
  "mcp_handler isInitializeRequest tools env req s =
    (let s0 = console_log (''Received '' @ req_method req @ '' request to /mcp'') s;
         (thrown, res, s1) = mcp_try isInitializeRequest tools env req fresh_response s0
     in if thrown then
          (let s2 = console_error ''Error handling MCP request:'' s1
           in if \<not> headersSent res then (res_json 500 (- 32603) internal_error_message res, s2)
              else (res, s2))
        else (res, s1))"

section \<open>The legacy endpoints: app.get("/sse") and app.post("/messages")\<close>

record sse_env =
  uuid :: string               \<comment> \<open>the session id the transport's constructor generates\<close>
  sse_connect_throws :: bool

definition new_SSEServerTransport :: "string \<Rightarrow> state \<Rightarrow> transport \<times> state" where
  "new_SSEServerTransport sid s =
    (let (r, s1) = new_ref s
     in (SSEServerTransport r, s1\<lparr>sessionId_of := (sessionId_of s1)(r \<mapsto> sid)\<rparr>))"

definition sse_handler :: "tool list \<Rightarrow> sse_env \<Rightarrow> state \<Rightarrow> bool \<times> state" where
  "sse_handler tools env s =
    (let s0 = console_log ''Received GET request to /sse (deprecated SSE transport)'' s;
         (transport, s1) = new_SSEServerTransport (uuid env) s0;
         s2 = registry_set (js_string (sessionId_of s1 (ref_of transport))) transport s1;
         (server, s3) = getServer tools s2
     in connect (sse_connect_throws env) server transport s3)"

record post_outcome =
  post_writes_head :: bool
  post_throws :: bool

definition handlePostMessage :: "post_outcome \<Rightarrow> transport \<Rightarrow> response \<Rightarrow> state \<Rightarrow> bool \<times> response \<times> state" where
  "handlePostMessage h t res s =
    (post_throws h,
     (if post_writes_head h then res\<lparr>headersSent := True\<rparr> else res),
     record_call (HandlePostMessage t) s)"

definition messages_handler :: "post_outcome \<Rightarrow> 'b request \<Rightarrow> state \<Rightarrow> bool \<times> response \<times> state" where
  "messages_handler h req s =
    (let sessionId = sessionId_param req;
         res = fresh_response;
         existingTransport = lookup (transports s) (js_string sessionId)
     in case existingTransport of
          Transport (SSEServerTransport r) \<Rightarrow>
            (let transport = existingTransport in
             if truthy transport then handlePostMessage h (SSEServerTransport r) res s
             else (False, res_send 400 ''No transport found for sessionId'' res, s))
        | _ \<Rightarrow> (False, res_json 400 (- 32000) wrong_transport_message res, s))"

section \<open>Shutdown: process.on("SIGINT")\<close>

text \<open>
  What the library does inside one \<^verbatim>\<open>close()\<close>: whether the transport's cleanup callback
  runs during the call, and whether the call throws.
\<close>

record close_outcome =
  fires_cleanup :: bool
  close_throws :: bool

definition close :: "close_outcome \<Rightarrow> transport \<Rightarrow> state \<Rightarrow> bool \<times> state" where
  "close c t s =
    (let s1 = record_call (Close t) s
     in (close_throws c, if fires_cleanup c then cleanup t s1 else s1))"

text \<open>
  The \<^verbatim>\<open>for ... in\<close> loop visits the keys present when it starts, in insertion order
  (session ids are UUIDs, never array indices), and skips a key that has been deleted
  before its turn. The members of \<^verbatim>\<open>Object.prototype\<close> are not enumerable.
\<close>

fun shutdown_loop :: "(transport \<Rightarrow> close_outcome) \<Rightarrow> string list \<Rightarrow> state \<Rightarrow> state" where
  "shutdown_loop closing [] s = s"
| "shutdown_loop closing (sessionId # ks) s =
    (case map_of (transports s) sessionId of
       None \<Rightarrow> shutdown_loop closing ks s
     | Some t \<Rightarrow>
        (let s1 = console_log (''Closing transport for session '' @ sessionId) s;
             (thrown, s2) = close (closing t) t s1
         in if thrown then
              shutdown_loop closing ks
                (console_error (''Error closing transport for session '' @ sessionId @ '':'') s2)
            else shutdown_loop closing ks (registry_delete sessionId s2)))"

definition sigint_handler :: "(transport \<Rightarrow> close_outcome) \<Rightarrow> state \<Rightarrow> state" where
  "sigint_handler closing s =
    (let s1 = console_log ''Shutting down server...'' s;
         s2 = shutdown_loop closing (map fst (transports s1)) s1;
         s3 = console_log ''Server shutdown complete'' s2
     in s3\<lparr>exit_code := Some 0\<rparr>)"

section \<open>Runs of the server\<close>

text \<open>
  The states the process can be in: it starts with an empty registry, and then handlers
  and callbacks run one after the other, each with any request and any behaviour of the
  library. A cleanup callback may also run on its own, when a connection closes.
\<close>

inductive reachable :: "('b \<Rightarrow> bool) \<Rightarrow> tool list \<Rightarrow> state \<Rightarrow> bool"
  for isInitializeRequest :: "'b \<Rightarrow> bool" and tools :: "tool list" where
  start: "reachable isInitializeRequest tools init_state"
| mcp: "reachable isInitializeRequest tools s \<Longrightarrow>
        reachable isInitializeRequest tools
          (snd (mcp_handler isInitializeRequest tools env (req :: 'b request) s))"
| sse: "reachable isInitializeRequest tools s \<Longrightarrow>
        reachable isInitializeRequest tools (snd (sse_handler tools senv s))"
| messages: "reachable isInitializeRequest tools s \<Longrightarrow>
        reachable isInitializeRequest tools (snd (snd (messages_handler h (req :: 'b request) s)))"
| closed: "reachable isInitializeRequest tools s \<Longrightarrow>
        reachable isInitializeRequest tools (cleanup t s)"
| sigint: "reachable isInitializeRequest tools s \<Longrightarrow>
        reachable isInitializeRequest tools (sigint_handler closing s)"

text \<open>
  A registry in which every entry is filed under the session id of its own transport,
  ids are not empty and no id occurs twice.
\<close>

definition registry_consistent :: "state \<Rightarrow> bool" where
  "registry_consistent s \<longleftrightarrow>
     distinct (map fst (transports s)) \<and>
     list_all (\<lambda>(k, t). k \<noteq> [] \<and> sessionId_of s (ref_of t) = Some k) (transports s)"

text \<open>The entries the shutdown loop leaves behind: those whose close threw before its cleanup ran.\<close>

definition close_failed :: "(transport \<Rightarrow> close_outcome) \<Rightarrow> string \<times> transport \<Rightarrow> bool" where
  "close_failed closing = (\<lambda>(k, t). close_throws (closing t) \<and> \<not> fires_cleanup (closing t))"

text \<open>
  The state in which the initialization branch of /mcp calls \<^verbatim>\<open>handleRequest\<close>: the event
  store, the transport and the server have been constructed, in this order, and the
  transport has been connected.
\<close>

definition init_branch_state :: "tool list \<Rightarrow> 'b request \<Rightarrow> state \<Rightarrow> state" where
  "init_branch_state tools req s =
     s\<lparr>console := console s @ [Log (''Initializing new session with token: '' @ js_string (token req))],
       eventStore_of := (eventStore_of s)(Suc (next_ref s) \<mapsto> next_ref s),
       next_ref := next_ref s + 3,
       servers := (servers s)(next_ref s + 2 \<mapsto> tools),
       calls := calls s @ [Connect (next_ref s + 2) (StreamableHTTPServerTransport (Suc (next_ref s)))]\<rparr>"

text \<open>A request handed to a transport of the other family.\<close>

fun family_mismatch :: "sdk_call \<Rightarrow> bool" where
  "family_mismatch (HandleRequest (SSEServerTransport r)) = True"
| "family_mismatch (HandlePostMessage (StreamableHTTPServerTransport r)) = True"
| "family_mismatch c = False"

text \<open>
  The pairs of a server and a transport for which \<^verbatim>\<open>server.connect(transport)\<close> has
  been called, in call order.
\<close>

fun connection :: "sdk_call \<Rightarrow> (ref \<times> transport) list" where
  "connection (Connect server t) = [(server, t)]"
| "connection c = []"

definition connections :: "state \<Rightarrow> (ref \<times> transport) list" where
  "connections s = concat (map connection (calls s))"

text \<open>
  What every run maintains: the connected servers and transports are allocated objects,
  each server carries exactly the declared tools, no server and no transport occurs in
  two connections, every transport in the registry has been connected, and no event store
  is held by two transports.
\<close>

definition well_formed :: "tool list \<Rightarrow> state \<Rightarrow> bool" where
  "well_formed tools s \<longleftrightarrow>
     list_all (\<lambda>(server, t). server < next_ref s \<and> ref_of t < next_ref s \<and>
                              servers s server = Some tools) (connections s) \<and>
     distinct (map fst (connections s)) \<and>
     distinct (map snd (connections s)) \<and>
     snd ` set (transports s) \<subseteq> snd ` set (connections s) \<and>
     (\<forall>r. next_ref s \<le> r \<longrightarrow> servers s r = None \<and> eventStore_of s r = None) \<and>
     (\<forall>r es. eventStore_of s r = Some es \<longrightarrow> es < next_ref s) \<and>
     (\<forall>r r' es. eventStore_of s r = Some es \<and> eventStore_of s r' = Some es \<longrightarrow> r = r')"

section \<open>Example data\<close>

text \<open>
  A state with one legacy and one Streamable session, as left by a GET on /sse followed
  by an initialization POST on /mcp (lemma \<open>two_sessions_run\<close>), and requests against it. The body of a request is
  abstract; in the examples it is a flag that says whether it is an initialization message.
\<close>

definition two_sessions :: state where
  "two_sessions =
    \<lparr>transports = [(''legacy-1'', SSEServerTransport 0), (''stream-1'', StreamableHTTPServerTransport 3)],
     sessionId_of = [0 \<mapsto> ''legacy-1'', 3 \<mapsto> ''stream-1''],
     eventStore_of = [3 \<mapsto> 2],
     servers = [1 \<mapsto> [fakeTool], 4 \<mapsto> [fakeTool]],
     next_ref = 5,
     calls = [Connect 1 (SSEServerTransport 0), Connect 4 (StreamableHTTPServerTransport 3),
              HandleRequest (StreamableHTTPServerTransport 3)],
     console = [Log ''Received GET request to /sse (deprecated SSE transport)'',
                Log ''Received POST request to /mcp'',
                Log ''Initializing new session with token: abc'',
                Log ''StreamableHTTP session initialized with ID: stream-1''],
     exit_code = None\<rparr>"

definition post_request :: "string option \<Rightarrow> string option \<Rightarrow> string option \<Rightarrow> bool \<Rightarrow> bool request" where
  "post_request header tok param is_init =
    \<lparr>req_method = ''POST'', mcp_session_id = header, token = tok, sessionId_param = param, body = is_init\<rparr>"

definition quiet :: mcp_env where
  "quiet = \<lparr>connect_throws = False, handle = \<lparr>effects = [], throws = False\<rparr>\<rparr>"

definition assigns :: "string \<Rightarrow> mcp_env" where
  "assigns sid = \<lparr>connect_throws = False, handle = \<lparr>effects = [SessionInitialized sid, WriteHead], throws = False\<rparr>\<rparr>"

definition failing :: "bool \<Rightarrow> mcp_env" where
  "failing started = \<lparr>connect_throws = False,
     handle = \<lparr>effects = (if started then [WriteHead] else []), throws = True\<rparr>\<rparr>"

definition legacy_stream :: sse_env where
  "legacy_stream = \<lparr>uuid = ''legacy-1'', sse_connect_throws = False\<rparr>"

definition accepted :: post_outcome where
  "accepted = \<lparr>post_writes_head = True, post_throws = False\<rparr>"

text \<open>Behaviours of \<^verbatim>\<open>close()\<close>: every close succeeds; the close of the legacy transport throws.\<close>

definition closes_cleanly :: "transport \<Rightarrow> close_outcome" where
  "closes_cleanly t = \<lparr>fires_cleanup = True, close_throws = False\<rparr>"

definition legacy_close_fails :: "transport \<Rightarrow> close_outcome" where
  "legacy_close_fails t = \<lparr>fires_cleanup = False, close_throws = (t = SSEServerTransport 0)\<rparr>"

section \<open>Auxiliary facts\<close>

lemmas prim_defs = registry_set_def registry_delete_def console_log_def console_error_def
  record_call_def fresh_response_def res_json_def res_send_def new_ref_def
  new_InMemoryEventStore_def

lemma foldl_server_tool:
  "foldl (\<lambda>acc tool. server_tool srv tool acc) (s\<lparr>servers := (servers s)(srv \<mapsto> ts)\<rparr>) tools =
     s\<lparr>servers := (servers s)(srv \<mapsto> ts @ tools)\<rparr>"
proof (induction tools arbitrary: ts)
  case Nil
  then show ?case by simp
next
  case (Cons a tools)
  have "server_tool srv a (s\<lparr>servers := (servers s)(srv \<mapsto> ts)\<rparr>) =
        s\<lparr>servers := (servers s)(srv \<mapsto> ts @ [a])\<rparr>"
    by (simp add: server_tool_def)
  then show ?case
    by (simp only: foldl_Cons Cons.IH append_assoc append_Cons append_Nil)
qed

lemma getServer_eq:
  "getServer tools s =
     (next_ref s, s\<lparr>next_ref := Suc (next_ref s), servers := (servers s)(next_ref s \<mapsto> tools)\<rparr>)"
proof -
  have "foldl (\<lambda>acc tool. server_tool (next_ref s) tool acc)
          ((s\<lparr>next_ref := Suc (next_ref s)\<rparr>)\<lparr>servers := (servers (s\<lparr>next_ref := Suc (next_ref s)\<rparr>))(next_ref s \<mapsto> [])\<rparr>) tools
        = (s\<lparr>next_ref := Suc (next_ref s)\<rparr>)\<lparr>servers := (servers (s\<lparr>next_ref := Suc (next_ref s)\<rparr>))(next_ref s \<mapsto> [] @ tools)\<rparr>"
    by (rule foldl_server_tool)
  then show ?thesis
    by (simp add: getServer_def new_ref_def)
qed

lemma apply_effect_frame:
  "calls (snd (apply_effect t p e)) = calls (snd p) \<and>
   next_ref (snd (apply_effect t p e)) = next_ref (snd p) \<and>
   servers (snd (apply_effect t p e)) = servers (snd p) \<and>
   eventStore_of (snd (apply_effect t p e)) = eventStore_of (snd p) \<and>
   exit_code (snd (apply_effect t p e)) = exit_code (snd p) \<and>
   sent (fst (apply_effect t p e)) = sent (fst p)"
  by (cases p; cases e) (simp_all add: onsessioninitialized_def onclose_def prim_defs Let_def)

lemma effects_frame:
  "calls (snd (foldl (apply_effect t) p es)) = calls (snd p) \<and>
   next_ref (snd (foldl (apply_effect t) p es)) = next_ref (snd p) \<and>
   servers (snd (foldl (apply_effect t) p es)) = servers (snd p) \<and>
   eventStore_of (snd (foldl (apply_effect t) p es)) = eventStore_of (snd p) \<and>
   exit_code (snd (foldl (apply_effect t) p es)) = exit_code (snd p) \<and>
   sent (fst (foldl (apply_effect t) p es)) = sent (fst p)"
proof (induction es arbitrary: p)
  case Nil
  then show ?case by simp
next
  case (Cons e es)
  show ?case using Cons.IH [of "apply_effect t p e"] apply_effect_frame [of t p e] by simp
qed

lemma effects_headersSent:
  "headersSent (fst (foldl (apply_effect t) p es)) \<longleftrightarrow> headersSent (fst p) \<or> WriteHead \<in> set es"
proof (induction es arbitrary: p)
  case Nil
  then show ?case by simp
next
  case (Cons e es)
  have "headersSent (fst (apply_effect t p e)) \<longleftrightarrow> headersSent (fst p) \<or> e = WriteHead"
    by (cases p; cases e) simp_all
  then show ?case using Cons.IH [of "apply_effect t p e"] by auto
qed

lemma handleRequest_frame:
  "handleRequest h t res s = (thrown, res', s') \<Longrightarrow>
     thrown = throws h \<and>
     calls s' = calls s @ [HandleRequest t] \<and> next_ref s' = next_ref s \<and>
     servers s' = servers s \<and> eventStore_of s' = eventStore_of s \<and> exit_code s' = exit_code s \<and>
     sent res' = sent res \<and> (headersSent res' \<longleftrightarrow> headersSent res \<or> WriteHead \<in> set (effects h))"
  using effects_frame [of t "(res, record_call (HandleRequest t) s)" "effects h"]
    effects_headersSent [of t "(res, record_call (HandleRequest t) s)" "effects h"]
  by (auto simp: handleRequest_def record_call_def split: prod.splits)

lemma handleRequest_calls:
  "calls (snd (snd (handleRequest h t res s))) = calls s @ [HandleRequest t]"
  using handleRequest_frame [of h t res s]
  by (cases "handleRequest h t res s") simp

lemma mcp_try_reuse:
  assumes "mcp_session_id req = Some sid" "sid \<noteq> []"
    "map_of (transports s) sid = Some (StreamableHTTPServerTransport r)"
  shows "mcp_try isInit tools env req res s =
           handleRequest (handle env) (StreamableHTTPServerTransport r) res s"
  using assms by (simp add: mcp_try_def lookup_def)

lemma mcp_try_init:
  assumes "\<not> truthy_string (mcp_session_id req)" "req_method req = ''POST''" "isInit (body req)"
    "truthy_string (token req)"
  shows "mcp_try isInit tools env req res s =
           (if connect_throws env then (True, res, init_branch_state tools req s)
            else handleRequest (handle env) (StreamableHTTPServerTransport (Suc (next_ref s))) res
                   (init_branch_state tools req s))"
  using assms
  by (simp add: mcp_try_def new_StreamableHTTPServerTransport_def getServer_eq connect_def
      init_branch_state_def prim_defs Let_def numeral_3_eq_3)

lemma mcp_try_mismatch:
  "filter family_mismatch (calls (snd (snd (mcp_try isInit tools env req res s)))) =
   filter family_mismatch (calls s)"
proof (cases "truthy_string (mcp_session_id req) \<and>
              truthy (lookup (transports s) (js_string (mcp_session_id req)))")
  case True
  then show ?thesis
    by (cases "lookup (transports s) (js_string (mcp_session_id req))")
       (simp_all add: mcp_try_def handleRequest_calls split: transport.splits)
next
  case False
  note nf = this
  show ?thesis
  proof (cases "\<not> truthy_string (mcp_session_id req) \<and> req_method req = ''POST'' \<and> isInit (body req)")
    case True
    note init = this
    show ?thesis
    proof (cases "truthy_string (token req)")
      case True
      with init show ?thesis
        by (simp add: mcp_try_init handleRequest_calls init_branch_state_def)
    next
      case False
      with init show ?thesis by (simp add: mcp_try_def)
    qed
  next
    case False
    with nf show ?thesis by (auto simp: mcp_try_def)
  qed
qed

lemma mcp_handler_mismatch:
  "filter family_mismatch (calls (snd (mcp_handler isInit tools env req s))) =
   filter family_mismatch (calls s)"
proof -
  let ?s0 = "console_log (''Received '' @ req_method req @ '' request to /mcp'') s"
  obtain thrown res' s' where te: "mcp_try isInit tools env req fresh_response ?s0 = (thrown, res', s')"
    by (cases "mcp_try isInit tools env req fresh_response ?s0") auto
  have "filter family_mismatch (calls s') = filter family_mismatch (calls ?s0)"
    using mcp_try_mismatch [of isInit tools env req fresh_response ?s0] te by simp
  then have "filter family_mismatch (calls s') = filter family_mismatch (calls s)"
    by (simp add: console_log_def)
  then show ?thesis
    unfolding mcp_handler_def Let_def te
    by (simp add: console_error_def)
qed

lemma messages_handler_mismatch:
  "filter family_mismatch (calls (snd (snd (messages_handler h req s)))) =
   filter family_mismatch (calls s)"
  by (auto simp: messages_handler_def Let_def handlePostMessage_def record_call_def
      split: js_value.splits transport.splits)

lemma sse_handler_eq:
  "sse_handler tools env s =
     (sse_connect_throws env,
      s\<lparr>console := console s @ [Log ''Received GET request to /sse (deprecated SSE transport)''],
        sessionId_of := (sessionId_of s)(next_ref s \<mapsto> uuid env),
        transports := AList.update (uuid env) (SSEServerTransport (next_ref s)) (transports s),
        next_ref := next_ref s + 2,
        servers := (servers s)(Suc (next_ref s) \<mapsto> tools),
        calls := calls s @ [Connect (Suc (next_ref s)) (SSEServerTransport (next_ref s))]\<rparr>)"
  by (simp add: sse_handler_def new_SSEServerTransport_def getServer_eq connect_def prim_defs Let_def)

lemma update_present_keys:
  "map_of al k = Some v \<Longrightarrow> map fst (AList.update k v' al) = map fst al"
  by (auto simp: update_keys dest: map_of_SomeD intro: rev_image_eqI)

lemma registry_delete_absent:
  "map_of (transports s) k = None \<Longrightarrow> registry_delete k s = s"
  by (simp add: registry_delete_def map_of_eq_None_iff)

lemma registry_delete_idem:
  "registry_delete k (registry_delete k s) = registry_delete k s"
  by (simp add: registry_delete_def delete_idem)

lemma registry_delete_lookup:
  "map_of (transports (registry_delete k s)) k = None"
  by (simp add: registry_delete_def delete_conv')

lemma cleanup_transports:
  "transports (cleanup t s) = transports s \<or>
   transports (cleanup t s) = AList.delete (js_string (sessionId_of s (ref_of t))) (transports s)"
  by (cases t) (simp_all add: onclose_def res_on_close_def registry_delete_def console_log_def Let_def)

lemma cleanup_sessionId_of: "sessionId_of (cleanup t s) = sessionId_of s"
  by (cases t) (simp_all add: onclose_def res_on_close_def registry_delete_def console_log_def Let_def)

lemma delete_middle:
  assumes "k \<notin> fst ` set pre" "k \<notin> fst ` set rest"
  shows "AList.delete k (pre @ (k, t) # rest) = pre @ rest"
proof -
  have "filter (\<lambda>p. fst p \<noteq> k) pre = pre" "filter (\<lambda>p. fst p \<noteq> k) rest = rest"
    using assms by (auto simp: filter_id_conv)
  then show ?thesis
    by (simp add: AList.delete_eq case_prod_unfold eq_commute)
qed


lemma cleanup_entry:
  assumes tr: "transports s = pre @ (k, t) # rest"
    and di: "distinct (map fst (pre @ (k, t) # rest))"
    and ne: "k \<noteq> []" and sid: "sessionId_of s (ref_of t) = Some k"
  shows "transports (cleanup t s) = pre @ rest \<and> sessionId_of (cleanup t s) = sessionId_of s \<and>
         calls (cleanup t s) = calls s \<and> exit_code (cleanup t s) = exit_code s \<and>
         set (console s) \<subseteq> set (console (cleanup t s))"
proof -
  have notin: "k \<notin> fst ` set pre" "k \<notin> fst ` set rest"
    using di by auto
  have m: "map_of (transports s) k = Some t"
    using notin(1) by (simp add: tr map_add_Some_iff map_of_eq_None_iff)
  have d: "AList.delete k (transports s) = pre @ rest"
    unfolding tr using notin by (rule delete_middle)
  show ?thesis
  proof (cases t)
    case (StreamableHTTPServerTransport r)
    then show ?thesis using m d ne sid
      by (auto simp: onclose_def registry_delete_def console_log_def lookup_def)
  next
    case (SSEServerTransport r)
    then show ?thesis using d sid
      by (simp add: res_on_close_def registry_delete_def)
  qed
qed

lemma shutdown_loop_step:
  assumes tr: "transports s = pre @ (k, t) # rest"
    and di: "distinct (map fst (pre @ (k, t) # rest))"
    and ne: "k \<noteq> []" and sid: "sessionId_of s (ref_of t) = Some k"
  shows "\<exists>s'. shutdown_loop closing (k # ks) s = shutdown_loop closing ks s' \<and>
      transports s' = pre @ filter (close_failed closing) [(k, t)] @ rest \<and>
      sessionId_of s' = sessionId_of s \<and> calls s' = calls s @ [Close t] \<and>
      exit_code s' = exit_code s \<and> set (console s) \<subseteq> set (console s') \<and>
      (close_throws (closing t) \<longrightarrow>
         Error (''Error closing transport for session '' @ k @ '':'') \<in> set (console s'))"
proof -
  define s1 where "s1 = record_call (Close t) (console_log (''Closing transport for session '' @ k) s)"
  define msg where "msg = ''Error closing transport for session '' @ k @ '':''"
  have notin: "k \<notin> fst ` set pre" "k \<notin> fst ` set rest"
    using di by auto
  have m: "map_of (transports s) k = Some t"
    using notin(1) by (simp add: tr map_add_Some_iff map_of_eq_None_iff)
  have s1: "transports s1 = pre @ (k, t) # rest" "sessionId_of s1 (ref_of t) = Some k"
    "sessionId_of s1 = sessionId_of s" "calls s1 = calls s @ [Close t]"
    "exit_code s1 = exit_code s" "set (console s) \<subseteq> set (console s1)"
    using tr sid by (auto simp: s1_def record_call_def console_log_def)
  note c = cleanup_entry [OF s1(1) di ne s1(2)]
  have dpre: "AList.delete k (pre @ rest) = pre @ rest"
    by (rule delete_id) (use notin in auto)
  have dmid: "AList.delete k (pre @ (k, t) # rest) = pre @ rest"
    using notin by (rule delete_middle)
  have unfold: "shutdown_loop closing (k # ks) s =
      (if close_throws (closing t) then
         shutdown_loop closing ks
           (console_error msg (if fires_cleanup (closing t) then cleanup t s1 else s1))
       else shutdown_loop closing ks
           (registry_delete k (if fires_cleanup (closing t) then cleanup t s1 else s1)))"
    using m by (simp add: close_def Let_def s1_def msg_def)
  have goal: "\<exists>s'. shutdown_loop closing (k # ks) s = shutdown_loop closing ks s' \<and>
      transports s' = pre @ filter (close_failed closing) [(k, t)] @ rest \<and>
      sessionId_of s' = sessionId_of s \<and> calls s' = calls s @ [Close t] \<and>
      exit_code s' = exit_code s \<and> set (console s) \<subseteq> set (console s') \<and>
      (close_throws (closing t) \<longrightarrow> Error msg \<in> set (console s'))"
  proof (cases "close_throws (closing t)")
    case True
    show ?thesis
      apply (rule exI [of _ "console_error msg (if fires_cleanup (closing t) then cleanup t s1 else s1)"])
      using True c s1 unfolding unfold
      by (auto simp: console_error_def close_failed_def)
  next
    case False
    show ?thesis
      apply (rule exI [of _ "registry_delete k (if fires_cleanup (closing t) then cleanup t s1 else s1)"])
      using False c s1 dpre dmid unfolding unfold
      by (auto simp: registry_delete_def close_failed_def)
  qed
  then show ?thesis unfolding msg_def .
qed

lemma shutdown_loop_result:
  assumes "transports s = pre @ rest" "distinct (map fst (pre @ rest))"
    "list_all (\<lambda>(k, t). k \<noteq> [] \<and> sessionId_of s (ref_of t) = Some k) rest"
  shows "transports (shutdown_loop closing (map fst rest) s) = pre @ filter (close_failed closing) rest \<and>
         calls (shutdown_loop closing (map fst rest) s) = calls s @ map (\<lambda>(k, t). Close t) rest \<and>
         exit_code (shutdown_loop closing (map fst rest) s) = exit_code s \<and>
         set (console s) \<subseteq> set (console (shutdown_loop closing (map fst rest) s)) \<and>
         list_all (\<lambda>(k, t). close_throws (closing t) \<longrightarrow>
            Error (''Error closing transport for session '' @ k @ '':'')
              \<in> set (console (shutdown_loop closing (map fst rest) s))) rest"
  using assms
proof (induction rest arbitrary: pre s)
  case Nil
  then show ?case by simp
next
  case (Cons p rest)
  obtain k t where p: "p = (k, t)" by (cases p)
  from Cons.prems p have tr: "transports s = pre @ (k, t) # rest"
    and di: "distinct (map fst (pre @ (k, t) # rest))"
    and ne: "k \<noteq> []" and sid: "sessionId_of s (ref_of t) = Some k"
    and la: "list_all (\<lambda>(k, t). k \<noteq> [] \<and> sessionId_of s (ref_of t) = Some k) rest"
    by simp_all
  from shutdown_loop_step [OF tr di ne sid, of closing "map fst rest"]
  obtain s' where st: "shutdown_loop closing (k # map fst rest) s = shutdown_loop closing (map fst rest) s'"
    "transports s' = pre @ filter (close_failed closing) [(k, t)] @ rest"
    "sessionId_of s' = sessionId_of s" "calls s' = calls s @ [Close t]"
    "exit_code s' = exit_code s" "set (console s) \<subseteq> set (console s')"
    "close_throws (closing t) \<longrightarrow>
         Error (''Error closing transport for session '' @ k @ '':'') \<in> set (console s')"
    by blast
  let ?pre = "pre @ filter (close_failed closing) [(k, t)]"
  have tr': "transports s' = ?pre @ rest" using st(2) by simp
  have di': "distinct (map fst (?pre @ rest))" using di by auto
  have la': "list_all (\<lambda>(k, t). k \<noteq> [] \<and> sessionId_of s' (ref_of t) = Some k) rest"
    using la st(3) by simp
  note ih = Cons.IH [OF tr' di' la']
  have eq: "shutdown_loop closing (map fst (p # rest)) s = shutdown_loop closing (map fst rest) s'"
    using st(1) p by simp
  show ?case
    unfolding eq using ih st(4-7) p
    by (auto simp: list_all_iff)
qed

lemma two_sessions_consistent: "registry_consistent two_sessions"
  by (simp add: registry_consistent_def two_sessions_def)

lemma well_formed_frame:
  assumes "well_formed tools s" "next_ref s' = next_ref s" "servers s' = servers s"
    "eventStore_of s' = eventStore_of s" "connections s' = connections s"
    "snd ` set (transports s') \<subseteq> snd ` set (connections s)"
  shows "well_formed tools s'"
  using assms unfolding well_formed_def by simp

lemma well_formed_registry:
  "well_formed tools s \<Longrightarrow> snd ` set (transports s) \<subseteq> snd ` set (connections s)"
  by (simp add: well_formed_def)

lemma update_values: "snd ` set (AList.update k v al) \<subseteq> insert v (snd ` set al)"
  by (induction al) auto

lemma delete_values: "snd ` set (AList.delete k al) \<subseteq> snd ` set al"
  by (auto simp: AList.delete_eq)


lemma apply_effect_values:
  "snd ` set (transports (snd (apply_effect t p e))) \<subseteq> insert t (snd ` set (transports (snd p)))"
proof (cases p)
  case (Pair res s)
  show ?thesis
  proof (cases e)
    case WriteHead
    with Pair show ?thesis by auto
  next
    case (SessionInitialized sid)
    with Pair show ?thesis
      using update_values [of sid t "transports s"]
      by (simp add: onsessioninitialized_def registry_set_def console_log_def)
  next
    case Closed
    with Pair show ?thesis
      using delete_values [of "js_string (sessionId_of s (ref_of t))" "transports s"]
      by (auto simp: onclose_def registry_delete_def console_log_def Let_def)
  qed
qed

lemma effects_values:
  "snd ` set (transports (snd (foldl (apply_effect t) p es))) \<subseteq> insert t (snd ` set (transports (snd p)))"
proof (induction es arbitrary: p)
  case Nil
  then show ?case by auto
next
  case (Cons e es)
  show ?case
    using Cons.IH [of "apply_effect t p e"] apply_effect_values [of t p e]
    by auto
qed

lemma connections_append: "calls s' = calls s @ cs \<Longrightarrow> connections s' = connections s @ concat (map connection cs)"
  by (simp add: connections_def)

lemma handleRequest_well_formed:
  assumes wf: "well_formed tools s" and t: "t \<in> snd ` set (connections s)"
    and hr: "handleRequest h t res s = (thrown, res', s')"
  shows "well_formed tools s'"
proof -
  note f = handleRequest_frame [OF hr]
  have c: "connections s' = connections s"
    using connections_append [of s' s "[HandleRequest t]"] f by simp
  have "s' = snd (foldl (apply_effect t) (res, record_call (HandleRequest t) s) (effects h))"
    using hr by (simp add: handleRequest_def split: prod.splits)
  then have "snd ` set (transports s') \<subseteq> insert t (snd ` set (transports s))"
    using effects_values [of t "(res, record_call (HandleRequest t) s)" "effects h"]
    by (simp add: record_call_def)
  then have v: "snd ` set (transports s') \<subseteq> snd ` set (connections s)"
    using wf t unfolding well_formed_def by auto
  show ?thesis
    using well_formed_frame [OF wf _ _ _ c v] f by simp
qed


lemma init_branch_well_formed:
  assumes wf: "well_formed tools s"
  shows "well_formed tools (init_branch_state tools req s)"
proof -
  let ?n = "next_ref s"
  let ?s' = "init_branch_state tools req s"
  have c: "connections ?s' = connections s @ [(?n + 2, StreamableHTTPServerTransport (Suc ?n))]"
    by (simp add: connections_def init_branch_state_def)
  have old: "\<forall>(server, t) \<in> set (connections s). server < ?n \<and> ref_of t < ?n"
    using wf unfolding well_formed_def by (auto simp: list_all_iff)
  have fresh1: "?n + 2 \<notin> fst ` set (connections s)"
    and fresh2: "StreamableHTTPServerTransport (Suc ?n) \<notin> snd ` set (connections s)"
    using old by fastforce+
  have f: "next_ref ?s' = ?n + 3" "servers ?s' = (servers s)(?n + 2 \<mapsto> tools)"
    "eventStore_of ?s' = (eventStore_of s)(Suc ?n \<mapsto> ?n)" "transports ?s' = transports s"
    by (simp_all add: init_branch_state_def)
  have a1: "list_all (\<lambda>(server, t). server < next_ref ?s' \<and> ref_of t < next_ref ?s' \<and>
                              servers ?s' server = Some tools) (connections ?s')"
    using wf unfolding well_formed_def c f by (auto simp: list_all_iff)
  have a2: "distinct (map fst (connections ?s'))" "distinct (map snd (connections ?s'))"
    using wf fresh1 fresh2 unfolding well_formed_def c by auto
  have a3: "snd ` set (transports ?s') \<subseteq> snd ` set (connections ?s')"
    using wf unfolding well_formed_def c f by auto
  have a4: "\<forall>r. next_ref ?s' \<le> r \<longrightarrow> servers ?s' r = None \<and> eventStore_of ?s' r = None"
    using wf unfolding well_formed_def f by auto
  have storeless: "\<forall>r. eventStore_of s r \<noteq> Some ?n" "eventStore_of s (Suc ?n) = None"
    using wf unfolding well_formed_def by fastforce+
  have olds: "\<forall>r es. eventStore_of s r = Some es \<longrightarrow> es < ?n"
    using wf unfolding well_formed_def by blast
  have a5: "\<forall>r es. eventStore_of ?s' r = Some es \<longrightarrow> es < next_ref ?s'"
    unfolding f using olds by (auto intro: trans_less_add1)
  have a6: "\<forall>r r' es. eventStore_of ?s' r = Some es \<and> eventStore_of ?s' r' = Some es \<longrightarrow> r = r'"
    using wf storeless unfolding well_formed_def f by (auto split: if_splits)
  show ?thesis
    unfolding well_formed_def using a1 a2 a3 a4 a5 a6 by blast
qed


lemma sse_handler_well_formed:
  assumes wf: "well_formed tools s"
  shows "well_formed tools (snd (sse_handler tools env s))"
proof -
  let ?n = "next_ref s"
  let ?s' = "snd (sse_handler tools env s)"
  have c: "connections ?s' = connections s @ [(Suc ?n, SSEServerTransport ?n)]"
    by (simp add: connections_def sse_handler_eq)
  have old: "\<forall>(server, t) \<in> set (connections s). server < ?n \<and> ref_of t < ?n"
    using wf unfolding well_formed_def by (auto simp: list_all_iff)
  have fresh1: "Suc ?n \<notin> fst ` set (connections s)"
    and fresh2: "SSEServerTransport ?n \<notin> snd ` set (connections s)"
    using old by fastforce+
  have f: "next_ref ?s' = ?n + 2" "servers ?s' = (servers s)(Suc ?n \<mapsto> tools)"
    "eventStore_of ?s' = eventStore_of s"
    "transports ?s' = AList.update (uuid env) (SSEServerTransport ?n) (transports s)"
    by (simp_all add: sse_handler_eq)
  have a1: "list_all (\<lambda>(server, t). server < next_ref ?s' \<and> ref_of t < next_ref ?s' \<and>
                              servers ?s' server = Some tools) (connections ?s')"
    using wf unfolding well_formed_def c f by (auto simp: list_all_iff)
  have a2: "distinct (map fst (connections ?s'))" "distinct (map snd (connections ?s'))"
    using wf fresh1 fresh2 unfolding well_formed_def c by auto
  have a3: "snd ` set (transports ?s') \<subseteq> snd ` set (connections ?s')"
    using wf update_values [of "uuid env" "SSEServerTransport ?n" "transports s"]
    unfolding well_formed_def c f by auto
  have a4: "\<forall>r. next_ref ?s' \<le> r \<longrightarrow> servers ?s' r = None \<and> eventStore_of ?s' r = None"
    using wf unfolding well_formed_def f by auto
  have olds: "\<forall>r es. eventStore_of s r = Some es \<longrightarrow> es < ?n"
    using wf unfolding well_formed_def by blast
  have a5: "\<forall>r es. eventStore_of ?s' r = Some es \<longrightarrow> es < next_ref ?s'"
    unfolding f using olds trans_less_add1 by blast
  have a6: "\<forall>r r' es. eventStore_of ?s' r = Some es \<and> eventStore_of ?s' r' = Some es \<longrightarrow> r = r'"
    using wf unfolding well_formed_def f by blast
  show ?thesis
    unfolding well_formed_def using a1 a2 a3 a4 a5 a6 by blast
qed

lemma console_well_formed:
  "well_formed tools s \<Longrightarrow> well_formed tools (console_log m s)"
  "well_formed tools s \<Longrightarrow> well_formed tools (console_error m s)"
  by (simp_all add: well_formed_def connections_def console_log_def console_error_def)

lemma mcp_try_well_formed:
  assumes wf: "well_formed tools s"
  shows "well_formed tools (snd (snd (mcp_try isInit tools env req res s)))"
proof (cases "truthy_string (mcp_session_id req) \<and>
              truthy (lookup (transports s) (js_string (mcp_session_id req)))")
  case True
  show ?thesis
  proof (cases "lookup (transports s) (js_string (mcp_session_id req))")
    case Undefined
    with True wf show ?thesis by (simp add: mcp_try_def)
  next
    case (PrototypeMember k)
    with True wf show ?thesis by (simp add: mcp_try_def)
  next
    case (Transport t)
    then have "map_of (transports s) (js_string (mcp_session_id req)) = Some t"
      by (auto simp: lookup_def split: option.splits if_splits)
    then have "t \<in> snd ` set (transports s)"
      by (force dest: map_of_SomeD)
    then have conn: "t \<in> snd ` set (connections s)"
      using wf unfolding well_formed_def by blast
    show ?thesis
    proof (cases t)
      case (SSEServerTransport r)
      with True Transport wf show ?thesis by (simp add: mcp_try_def)
    next
      case (StreamableHTTPServerTransport r)
      obtain thrown res' s' where hr: "handleRequest (handle env) t res s = (thrown, res', s')"
        by (cases "handleRequest (handle env) t res s") auto
      have "mcp_try isInit tools env req res s = (thrown, res', s')"
        using True Transport StreamableHTTPServerTransport hr by (simp add: mcp_try_def)
      then show ?thesis
        using handleRequest_well_formed [OF wf conn hr] by simp
    qed
  qed
next
  case False
  note nf = this
  show ?thesis
  proof (cases "\<not> truthy_string (mcp_session_id req) \<and> req_method req = ''POST'' \<and> isInit (body req)")
    case True
    note init = this
    show ?thesis
    proof (cases "truthy_string (token req)")
      case True
      let ?t = "StreamableHTTPServerTransport (Suc (next_ref s))"
      let ?s5 = "init_branch_state tools req s"
      have wf5: "well_formed tools ?s5"
        using wf by (rule init_branch_well_formed)
      have conn: "?t \<in> snd ` set (connections ?s5)"
        by (simp add: connections_def init_branch_state_def)
      show ?thesis
      proof (cases "connect_throws env")
        case True
        with init \<open>truthy_string (token req)\<close> wf5 show ?thesis
          by (simp add: mcp_try_init)
      next
        case False
        obtain thrown res' s' where hr: "handleRequest (handle env) ?t res ?s5 = (thrown, res', s')"
          by (cases "handleRequest (handle env) ?t res ?s5") auto
        have "mcp_try isInit tools env req res s = (thrown, res', s')"
          using init \<open>truthy_string (token req)\<close> False hr by (simp add: mcp_try_init)
        then show ?thesis
          using handleRequest_well_formed [OF wf5 conn hr] by simp
      qed
    next
      case False
      with init wf show ?thesis by (simp add: mcp_try_def)
    qed
  next
    case False
    with nf wf show ?thesis by (auto simp: mcp_try_def)
  qed
qed

lemma mcp_handler_well_formed:
  assumes wf: "well_formed tools s"
  shows "well_formed tools (snd (mcp_handler isInit tools env req s))"
proof -
  define s0 where "s0 = console_log (''Received '' @ req_method req @ '' request to /mcp'') s"
  have wf0: "well_formed tools s0"
    unfolding s0_def using wf by (rule console_well_formed)
  obtain thrown res' s' where te: "mcp_try isInit tools env req fresh_response s0 = (thrown, res', s')"
    by (cases "mcp_try isInit tools env req fresh_response s0") auto
  have wf': "well_formed tools s'"
    using mcp_try_well_formed [OF wf0, of isInit env req fresh_response] te by simp
  have "snd (mcp_handler isInit tools env req s) =
          (if thrown then console_error ''Error handling MCP request:'' s' else s')"
    unfolding mcp_handler_def Let_def s0_def [symmetric] te by simp
  then show ?thesis
    using wf' console_well_formed(2) [OF wf'] by simp
qed

lemma messages_handler_well_formed:
  assumes wf: "well_formed tools s"
  shows "well_formed tools (snd (snd (messages_handler h req s)))"
proof -
  have "snd (snd (messages_handler h req s)) = s \<or>
        (\<exists>t. snd (snd (messages_handler h req s)) = record_call (HandlePostMessage t) s)"
    by (auto simp: messages_handler_def Let_def handlePostMessage_def
        split: js_value.splits transport.splits)
  moreover have "well_formed tools (record_call (HandlePostMessage t) s)" for t
    using wf by (simp add: well_formed_def connections_def record_call_def)
  ultimately show ?thesis using wf by auto
qed

lemma cleanup_frame:
  "next_ref (cleanup t s) = next_ref s \<and> servers (cleanup t s) = servers s \<and>
   eventStore_of (cleanup t s) = eventStore_of s \<and> calls (cleanup t s) = calls s"
  by (cases t) (simp_all add: onclose_def res_on_close_def registry_delete_def
      console_log_def Let_def)

lemma cleanup_values: "snd ` set (transports (cleanup t s)) \<subseteq> snd ` set (transports s)"
proof -
  from cleanup_transports [of t s] show ?thesis
  proof (elim disjE)
    assume "transports (cleanup t s) = transports s"
    then show ?thesis by simp
  next
    assume e: "transports (cleanup t s) =
      AList.delete (js_string (sessionId_of s (ref_of t))) (transports s)"
    show ?thesis unfolding e by (rule delete_values)
  qed
qed

lemma cleanup_well_formed:
  assumes wf: "well_formed tools s"
  shows "well_formed tools (cleanup t s)"
proof (rule well_formed_frame [OF wf])
  show "next_ref (cleanup t s) = next_ref s" "servers (cleanup t s) = servers s"
    "eventStore_of (cleanup t s) = eventStore_of s"
    using cleanup_frame [of t s] by simp_all
  show "connections (cleanup t s) = connections s"
    using cleanup_frame [of t s] by (simp add: connections_def)
  show "snd ` set (transports (cleanup t s)) \<subseteq> snd ` set (connections s)"
    using cleanup_values [of t s] well_formed_registry [OF wf] by (rule order_trans)
qed

lemma registry_delete_well_formed:
  assumes wf: "well_formed tools s"
  shows "well_formed tools (registry_delete k s)"
proof -
  have "snd ` set (transports (registry_delete k s)) \<subseteq> snd ` set (transports s)"
    using delete_values [of k "transports s"] by (simp add: registry_delete_def)
  then have v: "snd ` set (transports (registry_delete k s)) \<subseteq> snd ` set (connections s)"
    using well_formed_registry [OF wf] by (rule order_trans)
  show ?thesis
    by (rule well_formed_frame [OF wf _ _ _ _ v]) (simp_all add: registry_delete_def connections_def)
qed

lemma close_well_formed:
  assumes wf: "well_formed tools s"
  shows "well_formed tools (snd (close c t s))"
proof -
  have "well_formed tools (record_call (Close t) s)"
    using wf by (simp add: well_formed_def connections_def record_call_def)
  then have "well_formed tools (cleanup t (record_call (Close t) s))"
    by (rule cleanup_well_formed)
  with \<open>well_formed tools (record_call (Close t) s)\<close> show ?thesis
    by (simp add: close_def Let_def)
qed

lemma shutdown_loop_well_formed:
  "well_formed tools s \<Longrightarrow> well_formed tools (shutdown_loop closing ks s)"
proof (induction ks arbitrary: s)
  case Nil
  then show ?case by simp
next
  case (Cons k ks)
  show ?case
  proof (cases "map_of (transports s) k")
    case None
    then have "shutdown_loop closing (k # ks) s = shutdown_loop closing ks s" by simp
    then show ?thesis using Cons.IH [OF Cons.prems] by simp
  next
    case (Some t)
    define s1 where "s1 = console_log (''Closing transport for session '' @ k) s"
    define s2 where "s2 = snd (close (closing t) t s1)"
    define msg where "msg = ''Error closing transport for session '' @ k @ '':''"
    have wf1: "well_formed tools s1"
      unfolding s1_def using Cons.prems by (rule console_well_formed(1))
    have wf2: "well_formed tools s2"
      unfolding s2_def using wf1 by (rule close_well_formed)
    have e: "shutdown_loop closing (k # ks) s =
            (if fst (close (closing t) t s1) then shutdown_loop closing ks (console_error msg s2)
             else shutdown_loop closing ks (registry_delete k s2))"
      using Some by (simp add: s1_def s2_def msg_def Let_def split: prod.splits)
    have a: "well_formed tools (shutdown_loop closing ks (console_error msg s2))"
      by (rule Cons.IH [OF console_well_formed(2) [OF wf2]])
    have b: "well_formed tools (shutdown_loop closing ks (registry_delete k s2))"
      by (rule Cons.IH [OF registry_delete_well_formed [OF wf2]])
    show ?thesis
      unfolding e using a b by simp
  qed
qed

lemma exit_well_formed:
  "well_formed tools s \<Longrightarrow> well_formed tools (s\<lparr>exit_code := c\<rparr>)"
  by (simp add: well_formed_def connections_def)

lemma sigint_handler_well_formed:
  assumes wf: "well_formed tools s"
  shows "well_formed tools (sigint_handler closing s)"
proof -
  define s1 where "s1 = console_log ''Shutting down server...'' s"
  define s2 where "s2 = shutdown_loop closing (map fst (transports s1)) s1"
  have wf1: "well_formed tools s1"
    unfolding s1_def using wf by (rule console_well_formed(1))
  have wf2: "well_formed tools s2"
    unfolding s2_def using wf1 by (rule shutdown_loop_well_formed)
  have e: "sigint_handler closing s = (console_log ''Server shutdown complete'' s2)\<lparr>exit_code := Some 0\<rparr>"
    by (simp add: sigint_handler_def Let_def s2_def s1_def)
  show ?thesis
    unfolding e by (intro exit_well_formed console_well_formed(1) wf2)
qed

lemma reachable_well_formed:
  "reachable isInit tools s \<Longrightarrow> well_formed tools s"
proof (induction rule: reachable.induct)
  case start
  show ?case by (simp add: well_formed_def connections_def init_state_def)
next
  case (mcp s env req)
  then show ?case by (simp add: mcp_handler_well_formed)
next
  case (sse s senv)
  then show ?case by (simp add: sse_handler_well_formed)
next
  case (messages s h req)
  then show ?case by (simp add: messages_handler_well_formed)
next
  case (closed s t)
  then show ?case by (simp add: cleanup_well_formed)
next
  case (sigint s closing)
  then show ?case by (simp add: sigint_handler_well_formed)
qed

lemma two_sessions_run:
  "snd (mcp_handler (\<lambda>b. b) [fakeTool] (assigns ''stream-1'')
          (post_request None (Some ''abc'') None True)
          (snd (sse_handler [fakeTool] legacy_stream init_state))) = two_sessions"
  by (simp add: mcp_handler_def mcp_try_init handleRequest_def assigns_def post_request_def
      sse_handler_eq legacy_stream_def init_state_def init_branch_state_def
      onsessioninitialized_def prim_defs two_sessions_def eval_nat_numeral)

lemma two_sessions_reachable: "reachable (\<lambda>b. b) [fakeTool] two_sessions"
  unfolding two_sessions_run [symmetric]
  by (intro reachable.mcp reachable.sse reachable.start)


lemma getServer_fresh:
  assumes "well_formed tools s"
  shows "servers s (fst (getServer tools s)) = None
       \<and> servers (snd (getServer tools s)) (fst (getServer tools s)) = Some tools"
  using assms by (simp add: getServer_eq well_formed_def)




lemma cleanup_keys: "fst ` set (transports (cleanup t s)) \<subseteq> fst ` set (transports s)"
proof -
  from cleanup_transports [of t s] show ?thesis
  proof (elim disjE)
    assume "transports (cleanup t s) = transports s"
    then show ?thesis by simp
  next
    assume e: "transports (cleanup t s) =
      AList.delete (js_string (sessionId_of s (ref_of t))) (transports s)"
    show ?thesis unfolding e by (rule dom_delete_subset)
  qed
qed

lemma close_keys: "fst ` set (transports (snd (close c t s))) \<subseteq> fst ` set (transports s)"
  using cleanup_keys [of t "record_call (Close t) s"]
  by (simp add: close_def Let_def record_call_def)

lemma shutdown_loop_keys:
  "fst ` set (transports (shutdown_loop closing ks s)) \<subseteq> fst ` set (transports s)"
proof (induction ks arbitrary: s)
  case Nil
  show ?case by simp
next
  case (Cons k ks)
  show ?case
  proof (cases "map_of (transports s) k")
    case None
    then show ?thesis using Cons.IH [of s] by simp
  next
    case (Some t)
    define s1 where "s1 = console_log (''Closing transport for session '' @ k) s"
    define s2 where "s2 = snd (close (closing t) t s1)"
    define msg where "msg = ''Error closing transport for session '' @ k @ '':''"
    have k2: "fst ` set (transports s2) \<subseteq> fst ` set (transports s)"
      using close_keys [of "closing t" t s1] by (simp add: s2_def s1_def console_log_def)
    have e: "shutdown_loop closing (k # ks) s =
            (if fst (close (closing t) t s1) then shutdown_loop closing ks (console_error msg s2)
             else shutdown_loop closing ks (registry_delete k s2))"
      using Some by (simp add: s1_def s2_def msg_def Let_def split: prod.splits)
    have "fst ` set (transports (console_error msg s2)) \<subseteq> fst ` set (transports s)"
      using k2 by (simp add: console_error_def)
    with Cons.IH [of "console_error msg s2"]
    have a: "fst ` set (transports (shutdown_loop closing ks (console_error msg s2)))
               \<subseteq> fst ` set (transports s)"
      by (rule order_trans)
    have "fst ` set (transports (registry_delete k s2)) \<subseteq> fst ` set (transports s2)"
      by (simp add: registry_delete_def dom_delete_subset)
    then have "fst ` set (transports (registry_delete k s2)) \<subseteq> fst ` set (transports s)"
      using k2 by (rule order_trans)
    with Cons.IH [of "registry_delete k s2"]
    have b: "fst ` set (transports (shutdown_loop closing ks (registry_delete k s2)))
               \<subseteq> fst ` set (transports s)"
      by (rule order_trans)
    show ?thesis
      unfolding e using a b by simp
  qed
qed

lemma sigint_handler_keys:
  "fst ` set (transports (sigint_handler closing s)) \<subseteq> fst ` set (transports s)"
  using shutdown_loop_keys [of closing "map fst (transports s)" "console_log ''Shutting down server...'' s"]
  by (simp add: sigint_handler_def Let_def console_log_def)

section \<open>Cross-family requests\<close>

text \<open>
  C1. A request that names a session of the other protocol family is answered with status
  400 and the JSON-RPC error envelope, without touching the registry and without reaching a
  transport: on /mcp when the (non-empty) session id in the header is filed under a legacy
  transport, and on /messages when the id in the query is filed under a Streamable transport
  or under nothing. The only change of state is the line /mcp prints on the console. Neither
  handler ever hands a request to a transport of the other family, whatever the request.
\<close>

theorem cross_family_request_rejected:
  "(mcp_session_id req = Some sid \<and> sid \<noteq> [] \<and>
      map_of (transports s) sid = Some (SSEServerTransport r) \<longrightarrow>
      mcp_handler isInit tools env req s =
        (\<lparr>headersSent = True, sent = [JsonRpcError 400 (- 32000) wrong_transport_message]\<rparr>,
         console_log (''Received '' @ req_method req @ '' request to /mcp'') s))
   \<and> (map_of (transports s) (js_string (sessionId_param req')) = None \<or>
      map_of (transports s) (js_string (sessionId_param req')) = Some (StreamableHTTPServerTransport r')
      \<longrightarrow>
      messages_handler h req' s =
        (False, \<lparr>headersSent = True, sent = [JsonRpcError 400 (- 32000) wrong_transport_message]\<rparr>, s))
   \<and> filter family_mismatch (calls (snd (mcp_handler isInit tools env req s))) =
       filter family_mismatch (calls s)
   \<and> filter family_mismatch (calls (snd (snd (messages_handler h req' s)))) =
       filter family_mismatch (calls s)"
proof (intro conjI impI)
  assume a: "mcp_session_id req = Some sid \<and> sid \<noteq> [] \<and>
      map_of (transports s) sid = Some (SSEServerTransport r)"
  let ?s0 = "console_log (''Received '' @ req_method req @ '' request to /mcp'') s"
  have l: "lookup (transports ?s0) sid = Transport (SSEServerTransport r)"
    using a by (simp add: lookup_def console_log_def)
  have "mcp_try isInit tools env req fresh_response ?s0 =
      (False, res_json 400 (- 32000) wrong_transport_message fresh_response, ?s0)"
    using a l by (simp add: mcp_try_def)
  then show "mcp_handler isInit tools env req s =
        (\<lparr>headersSent = True, sent = [JsonRpcError 400 (- 32000) wrong_transport_message]\<rparr>, ?s0)"
    by (simp add: mcp_handler_def res_json_def fresh_response_def)
next
  assume b: "map_of (transports s) (js_string (sessionId_param req')) = None \<or>
      map_of (transports s) (js_string (sessionId_param req')) = Some (StreamableHTTPServerTransport r')"
  then show "messages_handler h req' s =
        (False, \<lparr>headersSent = True, sent = [JsonRpcError 400 (- 32000) wrong_transport_message]\<rparr>, s)"
    by (auto simp: messages_handler_def lookup_def res_json_def fresh_response_def Let_def)
next
  show "filter family_mismatch (calls (snd (mcp_handler isInit tools env req s))) =
       filter family_mismatch (calls s)"
    by (rule mcp_handler_mismatch)
next
  show "filter family_mismatch (calls (snd (snd (messages_handler h req' s)))) =
       filter family_mismatch (calls s)"
    by (rule messages_handler_mismatch)
qed

theorem cross_family_request_rejected_witness:
  "map_of (transports two_sessions) ''legacy-1'' = Some (SSEServerTransport 0)
   \<and> map_of (transports two_sessions) ''stream-1'' = Some (StreamableHTTPServerTransport 3)
   \<and> mcp_handler (\<lambda>b. b) [fakeTool] quiet (post_request (Some ''legacy-1'') None None False) two_sessions =
       (\<lparr>headersSent = True, sent = [JsonRpcError 400 (- 32000) wrong_transport_message]\<rparr>,
        console_log ''Received POST request to /mcp'' two_sessions)
   \<and> messages_handler accepted (post_request None None (Some ''stream-1'') False) two_sessions =
       (False, \<lparr>headersSent = True, sent = [JsonRpcError 400 (- 32000) wrong_transport_message]\<rparr>,
        two_sessions)"
  using cross_family_request_rejected
    [where req = "post_request (Some ''legacy-1'') None None False" and sid = "''legacy-1''"
       and s = two_sessions and r = 0 and isInit = "\<lambda>b. b" and tools = "[fakeTool]" and env = quiet
       and req' = "post_request None None (Some ''stream-1'') False" and r' = 3 and h = accepted]
  by (simp add: two_sessions_def post_request_def)

section \<open>Initialization without a token\<close>

text \<open>
  C4. A POST on /mcp that carries no session id and an initialization body but no token
  (the query parameter is absent or empty) is answered with status 400 and the envelope
  whose message is "Bad Request: No token provided"; nothing is constructed and the
  registry is unchanged: the only change of state is the line printed on the console.
\<close>

theorem missing_token_rejected:
  "\<not> truthy_string (mcp_session_id req) \<Longrightarrow> req_method req = ''POST'' \<Longrightarrow> isInit (body req) \<Longrightarrow>
   \<not> truthy_string (token req) \<Longrightarrow>
   mcp_handler isInit tools env req s =
     (\<lparr>headersSent = True, sent = [JsonRpcError 400 (- 32000) missing_token_message]\<rparr>,
      console_log (''Received '' @ req_method req @ '' request to /mcp'') s)"
  by (simp add: mcp_handler_def mcp_try_def res_json_def fresh_response_def)


theorem missing_token_rejected_witness:
  "\<not> truthy_string (mcp_session_id (post_request None None None True))
   \<and> \<not> truthy_string (token (post_request None None None True))
   \<and> mcp_handler (\<lambda>b. b) [fakeTool] (assigns ''stream-2'') (post_request None None None True) two_sessions =
     (\<lparr>headersSent = True, sent = [JsonRpcError 400 (- 32000) missing_token_message]\<rparr>,
      console_log ''Received POST request to /mcp'' two_sessions)"
  using missing_token_rejected
    [where req = "post_request None None None True" and isInit = "\<lambda>b. b" and tools = "[fakeTool]"
       and env = "assigns ''stream-2''" and s = two_sessions]
  by (simp add: post_request_def)

section \<open>Unknown session ids on /mcp\<close>

text \<open>
  C8, as stated, fails where the session-id header is present but empty: the empty string
  is falsy, so the request is treated as one without a session id and, being a POST with
  an initialization body and a token, creates a session.
\<close>

theorem empty_session_header_creates_session:
  "mcp_session_id (post_request (Some []) (Some ''abc'') None True) = Some []
   \<and> map_of (transports init_state) [] = None
   \<and> transports (snd (mcp_handler (\<lambda>b. b) [fakeTool] (assigns ''stream-2'')
        (post_request (Some []) (Some ''abc'') None True) init_state)) =
       [(''stream-2'', StreamableHTTPServerTransport 1)]
   \<and> sent (fst (mcp_handler (\<lambda>b. b) [fakeTool] (assigns ''stream-2'')
        (post_request (Some []) (Some ''abc'') None True) init_state)) = []"
  by (simp add: mcp_handler_def mcp_try_init handleRequest_def assigns_def post_request_def
      init_state_def init_branch_state_def onsessioninitialized_def prim_defs)

text \<open>
  A header that names a member of \<^verbatim>\<open>Object.prototype\<close> is not a key of the registry
  either, but the read finds the inherited member and the reply has the wording of the
  wrong-transport rejection.
\<close>

lemma prototype_key_header_wrong_message:
  "sent (fst (mcp_handler (\<lambda>b. b) [fakeTool] quiet
        (post_request (Some ''constructor'') (Some ''abc'') None True) init_state)) =
       [JsonRpcError 400 (- 32000) wrong_transport_message]"
  by (simp add: mcp_handler_def mcp_try_def post_request_def lookup_def object_prototype_keys_def
      init_state_def prim_defs)

text \<open>
  C8, amended. A request on /mcp whose session-id header is a non-empty string for which
  the registry read yields nothing is answered with status 400 and the envelope whose
  message is "Bad Request: No valid session ID provided", whatever its method, body and
  token; nothing is constructed and the registry is unchanged.
\<close>

theorem unknown_session_rejected:
  "mcp_session_id req = Some sid \<Longrightarrow> sid \<noteq> [] \<Longrightarrow> lookup (transports s) sid = Undefined \<Longrightarrow>
   mcp_handler isInit tools env req s =
     (\<lparr>headersSent = True, sent = [JsonRpcError 400 (- 32000) invalid_session_message]\<rparr>,
      console_log (''Received '' @ req_method req @ '' request to /mcp'') s)"
  by (simp add: mcp_handler_def mcp_try_def res_json_def fresh_response_def console_log_def)


theorem unknown_session_rejected_witness:
  "lookup (transports two_sessions) ''gone'' = Undefined
   \<and> mcp_handler (\<lambda>b. b) [fakeTool] (assigns ''stream-2'')
        (post_request (Some ''gone'') (Some ''abc'') None True) two_sessions =
     (\<lparr>headersSent = True, sent = [JsonRpcError 400 (- 32000) invalid_session_message]\<rparr>,
      console_log ''Received POST request to /mcp'' two_sessions)"
proof -
  have l: "lookup (transports two_sessions) ''gone'' = Undefined"
    by (simp add: lookup_def two_sessions_def object_prototype_keys_def)
  show ?thesis
    using l unknown_session_rejected
      [where req = "post_request (Some ''gone'') (Some ''abc'') None True" and sid = "''gone''"
         and isInit = "\<lambda>b. b" and tools = "[fakeTool]" and env = "assigns ''stream-2''"
         and s = two_sessions]
    by (simp add: post_request_def)
qed

section \<open>Failures while a transport handles a request\<close>

text \<open>
  C7. When \<^verbatim>\<open>handleRequest\<close> throws on /mcp, for a reused transport or for the one just
  created, the router writes the envelope with status 500 and message "Internal server
  error" exactly when the transport has not started the response; otherwise it writes
  nothing. In both cases the failure is printed on the console and the handler returns.
\<close>

theorem internal_error_iff_nothing_sent:
  assumes "throws (handle env)"
    and "(mcp_session_id req = Some sid \<and> sid \<noteq> [] \<and>
          map_of (transports s) sid = Some (StreamableHTTPServerTransport r)) \<or>
         (\<not> truthy_string (mcp_session_id req) \<and> req_method req = ''POST'' \<and> isInit (body req) \<and>
          truthy_string (token req) \<and> \<not> connect_throws env)"
  shows "sent (fst (mcp_handler isInit tools env req s)) =
           (if WriteHead \<in> set (effects (handle env)) then []
            else [JsonRpcError 500 (- 32603) internal_error_message])
         \<and> last (console (snd (mcp_handler isInit tools env req s))) = Error ''Error handling MCP request:''"
proof -
  let ?s0 = "console_log (''Received '' @ req_method req @ '' request to /mcp'') s"
  obtain t s1 where try_eq: "mcp_try isInit tools env req fresh_response ?s0 =
      handleRequest (handle env) t fresh_response s1"
    using assms(2) mcp_try_reuse [of req sid ?s0 r isInit tools env fresh_response]
      mcp_try_init [of req isInit tools env fresh_response ?s0]
    by (auto simp: console_log_def)
  obtain thrown res' s' where hr: "handleRequest (handle env) t fresh_response s1 = (thrown, res', s')"
    by (cases "handleRequest (handle env) t fresh_response s1") auto
  from handleRequest_frame [OF hr] assms(1)
  have f: "thrown" "sent res' = []" "headersSent res' \<longleftrightarrow> WriteHead \<in> set (effects (handle env))"
    by (simp_all add: fresh_response_def)
  have te: "mcp_try isInit tools env req fresh_response ?s0 = (thrown, res', s')"
    using try_eq hr by simp
  show ?thesis
    unfolding mcp_handler_def Let_def te
    using f by (simp add: res_json_def console_error_def)
qed


theorem internal_error_iff_nothing_sent_witness:
  "sent (fst (mcp_handler (\<lambda>b. b) [fakeTool] (failing False)
       (post_request (Some ''stream-1'') None None False) two_sessions)) =
     [JsonRpcError 500 (- 32603) internal_error_message]
   \<and> sent (fst (mcp_handler (\<lambda>b. b) [fakeTool] (failing True)
       (post_request None (Some ''abc'') None True) two_sessions)) = []"
  using internal_error_iff_nothing_sent
      [where env = "failing False" and req = "post_request (Some ''stream-1'') None None False"
         and sid = "''stream-1''" and s = two_sessions and r = 3 and isInit = "\<lambda>b. b"
         and tools = "[fakeTool]"]
    internal_error_iff_nothing_sent
      [where env = "failing True" and req = "post_request None (Some ''abc'') None True"
         and s = two_sessions and isInit = "\<lambda>b. b" and tools = "[fakeTool]"]
  by (simp add: failing_def post_request_def two_sessions_def)

section \<open>The fallback branch of /messages\<close>

text \<open>
  C10. The handler of /messages either hands the request to the legacy transport the
  registry holds for the id, or answers with the JSON-RPC envelope of the wrong-transport
  rejection; it never writes a plain-text reply, so the branch that would send
  "No transport found for sessionId" is never taken.
\<close>

theorem messages_fallback_unreachable:
  "((\<exists>r. lookup (transports s) (js_string (sessionId_param req)) = Transport (SSEServerTransport r) \<and>
         messages_handler h req s = handlePostMessage h (SSEServerTransport r) fresh_response s)
     \<or> messages_handler h req s =
         (False, res_json 400 (- 32000) wrong_transport_message fresh_response, s))
   \<and> PlainText st txt \<notin> set (sent (fst (snd (messages_handler h req s))))"
  by (auto simp: messages_handler_def Let_def handlePostMessage_def res_json_def fresh_response_def
      split: js_value.splits transport.splits)

section \<open>Inserting under an id that is already present\<close>

text \<open>
  C3, as stated, fails: both insertions are plain assignments \<^verbatim>\<open>transports[id] = transport\<close>,
  so a second insert under the same id replaces the first entry.
\<close>

theorem first_writer_does_not_win:
  "map_of (transports two_sessions) ''stream-1'' = Some (StreamableHTTPServerTransport 3)
   \<and> map_of (transports (onsessioninitialized (StreamableHTTPServerTransport 7) ''stream-1'' two_sessions))
        ''stream-1'' = Some (StreamableHTTPServerTransport 7)"
  by (simp add: two_sessions_def onsessioninitialized_def registry_set_def console_log_def)

text \<open>
  C3, amended. For a session id already present in the registry, an insert of another
  transport under the same id, by the session-initialized callback or by the handler of
  /sse, does not fail and replaces the existing entry: the last writer wins. The registry
  keeps its keys and their order, and every other entry is unchanged.
\<close>

theorem insert_replaces_existing_entry:
  assumes "map_of (transports s) sid = Some t"
  shows "map_of (transports (onsessioninitialized t' sid s)) sid = Some t'
       \<and> map fst (transports (onsessioninitialized t' sid s)) = map fst (transports s)
       \<and> (\<forall>k. k \<noteq> sid \<longrightarrow>
            map_of (transports (onsessioninitialized t' sid s)) k = map_of (transports s) k)
       \<and> (uuid env = sid \<longrightarrow>
            map_of (transports (snd (sse_handler tools env s))) sid = Some (SSEServerTransport (next_ref s))
          \<and> map fst (transports (snd (sse_handler tools env s))) = map fst (transports s))"
  using assms update_present_keys [OF assms]
  by (simp add: onsessioninitialized_def sse_handler_eq registry_set_def console_log_def update_conv')

theorem insert_replaces_existing_entry_witness:
  "map_of (transports two_sessions) ''stream-1'' = Some (StreamableHTTPServerTransport 3)
   \<and> map_of (transports (onsessioninitialized (StreamableHTTPServerTransport 7) ''stream-1'' two_sessions))
        ''stream-1'' = Some (StreamableHTTPServerTransport 7)
   \<and> map_of (transports (onsessioninitialized (StreamableHTTPServerTransport 7) ''stream-1'' two_sessions))
        ''legacy-1'' = Some (SSEServerTransport 0)
   \<and> map_of (transports (snd (sse_handler [fakeTool] \<lparr>uuid = ''stream-1'', sse_connect_throws = False\<rparr>
        two_sessions))) ''stream-1'' = Some (SSEServerTransport 5)"
proof -
  have h: "map_of (transports two_sessions) ''stream-1'' = Some (StreamableHTTPServerTransport 3)"
    "map_of (transports two_sessions) ''legacy-1'' = Some (SSEServerTransport 0)"
    "next_ref two_sessions = 5"
    by (simp_all add: two_sessions_def)
  show ?thesis
    using h insert_replaces_existing_entry [OF h(1), of "StreamableHTTPServerTransport 7"
        "\<lparr>uuid = ''stream-1'', sse_connect_throws = False\<rparr>" "[fakeTool]"]
    by simp
qed

section \<open>Removing a session twice\<close>

text \<open>
  C6. Deleting a key is total, so it cannot raise; deleting it a second time changes
  nothing, and afterwards the registry has no entry under the key. The same holds for the
  callbacks: a cleanup callback that runs twice leaves the registry as one run does, and
  once the callback of a transport with a (non-empty) session id has run, the id is not in
  the registry, the deletion the shutdown loop performs for that id changes nothing, and a
  shutdown that follows leaves the registry without the id.
\<close>

theorem removal_idempotent:
  "registry_delete k (registry_delete k s) = registry_delete k s
   \<and> map_of (transports (registry_delete k s)) k = None
   \<and> transports (cleanup t (cleanup t s)) = transports (cleanup t s)
   \<and> (sessionId_of s (ref_of t) = Some k \<and> k \<noteq> [] \<longrightarrow>
        map_of (transports (cleanup t s)) k = None
      \<and> registry_delete k (cleanup t s) = cleanup t s
      \<and> map_of (transports (sigint_handler closing (cleanup t s))) k = None)"
proof (intro conjI impI)
  show "registry_delete k (registry_delete k s) = registry_delete k s"
    by (rule registry_delete_idem)
  show "map_of (transports (registry_delete k s)) k = None"
    by (rule registry_delete_lookup)
  show "transports (cleanup t (cleanup t s)) = transports (cleanup t s)"
  proof (cases t)
    case (StreamableHTTPServerTransport r)
    then show ?thesis
      by (simp add: onclose_def registry_delete_def console_log_def Let_def delete_idem)
  next
    case (SSEServerTransport r)
    then show ?thesis
      by (simp add: res_on_close_def registry_delete_def delete_idem)
  qed
next
  assume a: "sessionId_of s (ref_of t) = Some k \<and> k \<noteq> []"
  show gone: "map_of (transports (cleanup t s)) k = None"
  proof (cases t)
    case (StreamableHTTPServerTransport r)
    with a show ?thesis
      by (auto simp: onclose_def registry_delete_def console_log_def Let_def delete_conv' lookup_def
          split: option.splits)
  next
    case (SSEServerTransport r)
    with a show ?thesis
      by (simp add: res_on_close_def registry_delete_def delete_conv')
  qed
  show "registry_delete k (cleanup t s) = cleanup t s"
    using gone by (rule registry_delete_absent)
  have "k \<notin> fst ` set (transports (cleanup t s))"
    using gone by (simp add: map_of_eq_None_iff)
  then have "k \<notin> fst ` set (transports (sigint_handler closing (cleanup t s)))"
    using sigint_handler_keys [of closing "cleanup t s"] by blast
  then show "map_of (transports (sigint_handler closing (cleanup t s))) k = None"
    by (simp add: map_of_eq_None_iff)
qed

theorem removal_idempotent_witness:
  "sessionId_of two_sessions (ref_of (StreamableHTTPServerTransport 3)) = Some ''stream-1''
   \<and> map_of (transports two_sessions) ''stream-1'' = Some (StreamableHTTPServerTransport 3)
   \<and> map_of (transports (cleanup (StreamableHTTPServerTransport 3) two_sessions)) ''stream-1'' = None
   \<and> registry_delete ''stream-1'' (cleanup (StreamableHTTPServerTransport 3) two_sessions) =
       cleanup (StreamableHTTPServerTransport 3) two_sessions
   \<and> map_of (transports (sigint_handler closes_cleanly
         (cleanup (StreamableHTTPServerTransport 3) two_sessions))) ''stream-1'' = None"
proof -
  have h: "sessionId_of two_sessions (ref_of (StreamableHTTPServerTransport 3)) = Some ''stream-1''"
    "map_of (transports two_sessions) ''stream-1'' = Some (StreamableHTTPServerTransport 3)"
    by (simp_all add: two_sessions_def)
  show ?thesis
    using h removal_idempotent [of "''stream-1''" two_sessions "StreamableHTTPServerTransport 3"
        closes_cleanly]
    by simp
qed

section \<open>Shutdown\<close>

text \<open>
  C5, as stated, fails where a close throws: the deletion follows the awaited close inside
  the \<^verbatim>\<open>try\<close> block, so it is skipped and the entry is still in the registry when the
  process exits.
\<close>

theorem failed_close_leaves_entry:
  "transports two_sessions =
     [(''legacy-1'', SSEServerTransport 0), (''stream-1'', StreamableHTTPServerTransport 3)]
   \<and> close_throws (legacy_close_fails (SSEServerTransport 0))
   \<and> transports (sigint_handler legacy_close_fails two_sessions) = [(''legacy-1'', SSEServerTransport 0)]
   \<and> exit_code (sigint_handler legacy_close_fails two_sessions) = Some 0"
  by (simp add: sigint_handler_def close_def legacy_close_fails_def two_sessions_def prim_defs)

text \<open>
  C5, amended. Take a registry in which every entry is filed under the non-empty session
  id of its own transport. On SIGINT every transport in the registry receives one close
  call, in registry order, whatever the earlier closes did; every close that throws is
  printed on the console; after the loop the registry holds exactly the entries whose
  close threw before the transport's cleanup callback ran, so it is empty when no close
  fails; and the process exits with status 0 in every case.
\<close>

theorem shutdown_drain:
  assumes "registry_consistent s"
  shows "calls (sigint_handler closing s) = calls s @ map (\<lambda>(k, t). Close t) (transports s)
       \<and> transports (sigint_handler closing s) = filter (close_failed closing) (transports s)
       \<and> list_all (\<lambda>(k, t). close_throws (closing t) \<longrightarrow>
            Error (''Error closing transport for session '' @ k @ '':'')
              \<in> set (console (sigint_handler closing s))) (transports s)
       \<and> exit_code (sigint_handler closing s) = Some 0"
proof -
  define s1 where "s1 = console_log ''Shutting down server...'' s"
  define s2 where "s2 = shutdown_loop closing (map fst (transports s1)) s1"
  have s1: "transports s1 = [] @ transports s" "calls s1 = calls s" "sessionId_of s1 = sessionId_of s"
    by (simp_all add: s1_def console_log_def)
  have di: "distinct (map fst ([] @ transports s))"
    and la: "list_all (\<lambda>(k, t). k \<noteq> [] \<and> sessionId_of s1 (ref_of t) = Some k) (transports s)"
    using assms by (simp_all add: registry_consistent_def s1(3))
  have keys: "map fst (transports s1) = map fst (transports s)" using s1(1) by simp
  note r = shutdown_loop_result [OF s1(1) di la, of closing, folded keys, folded s2_def]
  have sh: "sigint_handler closing s = (console_log ''Server shutdown complete'' s2)\<lparr>exit_code := Some 0\<rparr>"
    by (simp add: sigint_handler_def Let_def s1_def s2_def)
  show ?thesis
    unfolding sh using r s1(2)
    by (auto simp: console_log_def list_all_iff)
qed

theorem shutdown_drain_witness:
  "registry_consistent two_sessions
   \<and> calls (sigint_handler closes_cleanly two_sessions) =
       calls two_sessions @ [Close (SSEServerTransport 0), Close (StreamableHTTPServerTransport 3)]
   \<and> transports (sigint_handler closes_cleanly two_sessions) = []
   \<and> exit_code (sigint_handler closes_cleanly two_sessions) = Some 0"
  using two_sessions_consistent shutdown_drain [OF two_sessions_consistent, of closes_cleanly]
  by (simp add: close_failed_def closes_cleanly_def two_sessions_def)

section \<open>Creating a Streamable session\<close>



section \<open>One protocol server per session\<close>

text \<open>
  C9. In every state of a run, every transport in the registry has been connected to a
  server; every connected server carries exactly the declared tool list; no server is
  connected to two transports and no transport to two servers; and the server that
  \<^verbatim>\<open>getServer\<close> returns next is an object that did not exist before, with exactly the
  declared tools registered on it.
\<close>

theorem one_server_per_session:
  assumes "reachable isInit tools s"
  shows "list_all (\<lambda>(k, t). t \<in> snd ` set (connections s)) (transports s)
       \<and> list_all (\<lambda>(server, t). servers s server = Some tools) (connections s)
       \<and> distinct (map fst (connections s))
       \<and> distinct (map snd (connections s))
       \<and> servers s (fst (getServer tools s)) = None
       \<and> servers (snd (getServer tools s)) (fst (getServer tools s)) = Some tools"
proof -
  have wf: "well_formed tools s"
    using assms by (rule reachable_well_formed)
  have a: "list_all (\<lambda>(k, t). t \<in> snd ` set (connections s)) (transports s)"
    using well_formed_registry [OF wf] by (force simp: list_all_iff)
  have b: "list_all (\<lambda>(server, t). servers s server = Some tools) (connections s)"
    using wf by (auto simp: well_formed_def list_all_iff)
  have c: "distinct (map fst (connections s))" "distinct (map snd (connections s))"
    using wf by (simp_all add: well_formed_def)
  show ?thesis
    using a b c getServer_fresh [OF wf] by simp
qed

theorem one_server_per_session_witness:
  "reachable (\<lambda>b. b) [fakeTool] two_sessions
   \<and> connections two_sessions = [(1, SSEServerTransport 0), (4, StreamableHTTPServerTransport 3)]
   \<and> list_all (\<lambda>(k, t). t \<in> snd ` set (connections two_sessions)) (transports two_sessions)
   \<and> list_all (\<lambda>(server, t). servers two_sessions server = Some [fakeTool]) (connections two_sessions)
   \<and> distinct (map fst (connections two_sessions))
   \<and> distinct (map snd (connections two_sessions))"
proof -
  have c: "connections two_sessions = [(1, SSEServerTransport 0), (4, StreamableHTTPServerTransport 3)]"
    by (simp add: connections_def two_sessions_def)
  show ?thesis
    using two_sessions_reachable c one_server_per_session [OF two_sessions_reachable]
    by simp
qed

end
